theory Spec2Isabelle
  imports Complex_Main "HOL-Library.Multiset"
begin

section \<open>Data model of the Sevens session server (src/server.js)\<close>

text \<open>
  The four suits of \<^verbatim>\<open>createDeck\<close>, in the order of its \<^verbatim>\<open>suits\<close> array
  (U+2660 spades, U+2665 hearts, U+2666 diamonds, U+2663 clubs). Every card of a hand
  comes from \<^verbatim>\<open>createDeck\<close>, so a suit is one of these four.
\<close>

datatype suit = Spades | Hearts | Diamonds | Clubs

text \<open>
  A card object \<^verbatim>\<open>{ suit, value }\<close>; the fields are named \<open>card_suit\<close> and
  \<open>card_value\<close> here. The numbers of the source are integers.
\<close>

record card =
  card_suit :: suit
  card_value :: int

text \<open>
  A board entry is \<^verbatim>\<open>null\<close> or an object \<^verbatim>\<open>{ low, high }\<close>; the board is the
  object that \<^verbatim>\<open>initBoard\<close> returns, with one entry for each suit.
\<close>

record run =
  low :: int
  high :: int

type_synonym board = "suit \<Rightarrow> run option"

type_synonym client_id = string
type_synonym room_id = string

text \<open>
  A player object \<^verbatim>\<open>{ id, name, ws, hand, passed, isOut }\<close>. Of the socket \<^verbatim>\<open>ws\<close>
  of a player the handlers read \<^verbatim>\<open>readyState\<close> only (1 is OPEN), to decide whether
  to send, so the player carries that number; it has no part in what a handler does to
  the room. \<^verbatim>\<open>id\<close> is \<open>pid\<close> here. \<^verbatim>\<open>msg.name\<close> is taken to be a string; the
  only falsy string of JavaScript is the empty one.
\<close>

record player =
  pid :: client_id
  name :: string
  readyState :: nat
  hand :: "card list"
  passed :: bool
  isOut :: bool

text \<open>A room object; \<^verbatim>\<open>deck\<close> and \<^verbatim>\<open>loser\<close> start as \<^verbatim>\<open>null\<close>.\<close>

record room =
  players :: "player list"
  deck :: "card list option"
  board :: board
  started :: bool
  turn :: nat
  gameOver :: bool
  loser :: "string option"

text \<open>
  The socket of the connection whose message is handled: \<^verbatim>\<open>ws.clientId\<close>,
  \<^verbatim>\<open>ws.roomId\<close> (unset until the connection creates or joins a room) and its
  \<^verbatim>\<open>readyState\<close>.
\<close>

record ws =
  clientId :: client_id
  roomId :: "room_id option"
  ws_readyState :: nat

text \<open>
  The texts of the \<^verbatim>\<open>error\<close> messages of the handlers modelled here, which the
  source writes in Arabic: "the game has already started", "the room is full", "only
  the host can start", "at least two players are needed", "invalid move", "you cannot
  pass, you have valid moves".
\<close>

datatype error_msg =
  GameAlreadyStarted | RoomFull | OnlyHostCanStart | NeedTwoPlayers | InvalidMove | CannotPass

text \<open>The entries of \<^verbatim>\<open>players\<close> in a \<^verbatim>\<open>game_state\<close> message.\<close>

record player_view =
  pv_id :: client_id
  pv_name :: string
  cardCount :: nat
  pv_passed :: bool
  pv_isOut :: bool

record game_state =
  gs_board :: board
  gs_players :: "player_view list"
  myHand :: "card list"
  gs_turn :: nat
  currentPlayerId :: "client_id option"
  validMoves :: "card list"
  gs_gameOver :: bool
  gs_loser :: "string option"
  gs_started :: bool

text \<open>The messages the server sends, by their \<^verbatim>\<open>type\<close> field.\<close>

datatype message =
    is_Error: Error error_msg
  | RoomCreated room_id client_id
  | JoinedRoom room_id client_id
  | PlayerList "(client_id \<times> string) list"
  | GameStarted
  | PlayerOut string
  | GameState game_state

text \<open>
  What a handler sends: each message with the \<^verbatim>\<open>clientId\<close> of the socket it is
  sent on, in the order of the \<^verbatim>\<open>send\<close> calls.
\<close>

type_synonym outs = "(client_id \<times> message) list"

text \<open>
  Reading a property of \<^verbatim>\<open>undefined\<close> or \<^verbatim>\<open>null\<close> throws a TypeError, which
  ends the handler.
\<close>

datatype js_error = TypeError

text \<open>\<^verbatim>\<open>xs[i]\<close>, which is \<^verbatim>\<open>undefined\<close> out of range.\<close>

definition at_index :: "'a list \<Rightarrow> nat \<Rightarrow> 'a option" where
  "at_index xs i = (if i < length xs then Some (xs ! i) else None)"

subsection \<open>Deck and deal\<close>

definition suits :: "suit list" where
  "suits = [Spades, Hearts, Diamonds, Clubs]"

text \<open>The deck of \<^verbatim>\<open>createDeck\<close> before the shuffle: the two nested loops.\<close>

definition orderedDeck :: "card list" where
  "orderedDeck =
     concat (map (\<lambda>s. map (\<lambda>v. \<lparr>card_suit = s, card_value = v\<rparr>) [7..14]) suits)"

text \<open>
  The shuffle loop of \<^verbatim>\<open>createDeck\<close>, from index \<open>i\<close> down to 1. \<open>rnd i\<close> is
  what \<^verbatim>\<open>Math.random()\<close> returns in the iteration of index \<open>i\<close>, a number in
  \<open>[0, 1)\<close>. The destructuring assignment reads both elements before it writes.
\<close>

fun shuffle :: "(nat \<Rightarrow> real) \<Rightarrow> nat \<Rightarrow> card list \<Rightarrow> card list" where
  "shuffle rnd 0 dck = dck"
| "shuffle rnd (Suc i) dck =
     (let j = nat \<lfloor>rnd (Suc i) * real (Suc i + 1)\<rfloor>
      in shuffle rnd i (dck[Suc i := dck ! j, j := dck ! Suc i]))"

definition createDeck :: "(nat \<Rightarrow> real) \<Rightarrow> card list" where
  "createDeck rnd = shuffle rnd (length orderedDeck - 1) orderedDeck"

definition initBoard :: board where
  "initBoard = (\<lambda>s. None)"

text \<open>
  \<^verbatim>\<open>dealCards\<close>: the card at index \<open>i\<close> is pushed to \<^verbatim>\<open>hands[i % numPlayers]\<close>.
  Both handlers that call it have read \<^verbatim>\<open>room.players[0]\<close> before, so
  \<open>numPlayers\<close> is positive there.
\<close>

definition dealCards :: "card list \<Rightarrow> nat \<Rightarrow> card list list" where
  "dealCards dck numPlayers =
     foldl (\<lambda>hands (i, c). hands[i mod numPlayers := hands ! (i mod numPlayers) @ [c]])
       (replicate numPlayers []) (enumerate 0 dck)"

subsection \<open>Legal moves\<close>

text \<open>
  The body of the loop of \<^verbatim>\<open>getValidMoves\<close>: whether \<^verbatim>\<open>card\<close> is pushed to
  \<^verbatim>\<open>moves\<close>. An object is truthy, \<^verbatim>\<open>null\<close> is not.
\<close>

definition isValidMove :: "board \<Rightarrow> card \<Rightarrow> bool" where
  "isValidMove brd c =
     (if card_value c = 7 then brd (card_suit c) = None
      else (case brd (card_suit c) of
              None \<Rightarrow> False
            | Some b \<Rightarrow> card_value c = high b + 1 \<and> high b < 14))"

fun getValidMoves :: "card list \<Rightarrow> board \<Rightarrow> card list" where
  "getValidMoves [] brd = []"
| "getValidMoves (c # hnd) brd =
     (if isValidMove brd c then c # getValidMoves hnd brd else getValidMoves hnd brd)"

subsection \<open>Sending\<close>

definition broadcast :: "room \<Rightarrow> message \<Rightarrow> outs" where
  "broadcast rm msg =
     map (\<lambda>p. (pid p, msg)) (filter (\<lambda>p. readyState p = 1) (players rm))"

text \<open>The \<^verbatim>\<open>game_state\<close> message that \<^verbatim>\<open>sendGameState\<close> builds for player \<open>p\<close>.\<close>

definition gameStateFor :: "room \<Rightarrow> player \<Rightarrow> message" where
  "gameStateFor rm p =
     (let current = map_option pid (at_index (players rm) (turn rm))
      in GameState
        \<lparr>gs_board = board rm,
         gs_players =
           map (\<lambda>pl. \<lparr>pv_id = pid pl, pv_name = name pl, cardCount = length (hand pl),
                       pv_passed = passed pl, pv_isOut = isOut pl\<rparr>) (players rm),
         myHand = hand p,
         gs_turn = turn rm,
         currentPlayerId = current,
         validMoves =
           (if started rm \<and> current = Some (pid p) then getValidMoves (hand p) (board rm)
            else []),
         gs_gameOver = gameOver rm,
         gs_loser = loser rm,
         gs_started = started rm\<rparr>)"

definition sendGameState :: "room \<Rightarrow> outs" where
  "sendGameState rm =
     map (\<lambda>p. (pid p, gameStateFor rm p)) (filter (\<lambda>p. readyState p = 1) (players rm))"

subsection \<open>Turns and the end of the game\<close>

text \<open>
  The \<^verbatim>\<open>while\<close> loop of \<^verbatim>\<open>nextTurn\<close>, on its two variables \<^verbatim>\<open>next\<close> and
  \<^verbatim>\<open>count\<close> (\<open>cnt\<close> here); it returns both.
\<close>

function nextTurn_loop :: "player list \<Rightarrow> nat \<Rightarrow> nat \<Rightarrow> nat \<times> nat" where
  "nextTurn_loop ps next cnt =
     (if isOut (ps ! next) \<and> cnt < length ps
      then nextTurn_loop ps ((next + 1) mod length ps) (cnt + 1)
      else (next, cnt))"
  by pat_completeness auto
termination
  by (relation "measure (\<lambda>(ps, next, cnt). length ps - cnt)") auto

declare nextTurn_loop.simps [simp del]

text \<open>
  \<^verbatim>\<open>nextTurn\<close>. With no player, \<^verbatim>\<open>room.players[next]\<close> is \<^verbatim>\<open>undefined\<close> and
  reading its \<^verbatim>\<open>isOut\<close> throws.
\<close>

definition nextTurn :: "room \<Rightarrow> js_error + room" where
  "nextTurn rm =
     (if players rm = [] then Inl TypeError
      else Inr (rm\<lparr>turn :=
             fst (nextTurn_loop (players rm) ((turn rm + 1) mod length (players rm)) 0)\<rparr>))"

text \<open>
  The default of \<^verbatim>\<open>room.loser\<close> in \<^verbatim>\<open>checkGameOver\<close>, Arabic for "last player":
  U+0622 U+062E U+0631, a space, U+0644 U+0627 U+0639 U+0628, in UTF-8.
\<close>

definition lastPlayerLabel :: string where
  "lastPlayerLabel =
     [CHR 0xD8, CHR 0xA2, CHR 0xD8, CHR 0xAE, CHR 0xD8, CHR 0xB1, CHR 0x20,
      CHR 0xD9, CHR 0x84, CHR 0xD8, CHR 0xA7, CHR 0xD8, CHR 0xB9, CHR 0xD8, CHR 0xA8]"

text \<open>
  \<^verbatim>\<open>checkGameOver\<close> returns its boolean and the room. \<^verbatim>\<open>a || b\<close> is \<open>b\<close> when
  \<open>a\<close> is \<^verbatim>\<open>undefined\<close> (no active player) or the empty string.
\<close>

definition checkGameOver :: "room \<Rightarrow> bool \<times> room" where
  "checkGameOver rm =
     (let activePlayers = filter (\<lambda>p. \<not> isOut p) (players rm)
      in if length activePlayers \<le> 1
         then (True, rm\<lparr>gameOver := True,
                 loser := Some (case activePlayers of
                                  [] \<Rightarrow> lastPlayerLabel
                                | p # _ \<Rightarrow> if name p = [] then lastPlayerLabel else name p)\<rparr>)
         else (False, rm))"

subsection \<open>The handlers\<close>

text \<open>
  The loop that finds who holds the 7 of spades: the first index whose hand has it,
  0 when no hand has it.
\<close>

definition firstPlayer :: "player list \<Rightarrow> nat" where
  "firstPlayer ps =
     (case find (\<lambda>i. find (\<lambda>c. card_suit c = Spades \<and> card_value c = 7) (hand (ps ! i)) \<noteq> None)
             [0..<length ps] of
        None \<Rightarrow> 0
      | Some i \<Rightarrow> i)"

text \<open>
  The deal, which \<^verbatim>\<open>start_game\<close> (lines 164 to 183) and \<^verbatim>\<open>restart\<close> (lines 243 to
  260) both contain, statement for statement: the room after it and what is sent.
\<close>

definition dealGame :: "(nat \<Rightarrow> real) \<Rightarrow> room \<Rightarrow> room \<times> outs" where
  "dealGame rnd rm =
     (let dck = createDeck rnd;
          hands = dealCards dck (length (players rm));
          ps = map (\<lambda>(i, p). p\<lparr>hand := hands ! i, isOut := False, passed := False\<rparr>)
                 (enumerate 0 (players rm));
          rm1 = rm\<lparr>players := ps, deck := Some dck, board := initBoard, started := True,
                   gameOver := False, loser := None\<rparr>;
          rm2 = rm1\<lparr>turn := firstPlayer ps\<rparr>
      in (rm2, broadcast rm2 GameStarted @ sendGameState rm2))"

text \<open>
  The handlers below are the branches of the \<^verbatim>\<open>message\<close> listener after the room
  has been looked up (\<^verbatim>\<open>rooms[ws.roomId]\<close>) and found; with no room each of them
  returns at once. They take the \<^verbatim>\<open>clientId\<close> of the sending socket, and return
  the room after the handler and the messages sent, an error message to the sender
  being sent on \<^verbatim>\<open>ws\<close> itself. \<^verbatim>\<open>room.players[0]\<close> is \<^verbatim>\<open>undefined\<close> in a
  room with no player, and reading its \<^verbatim>\<open>id\<close> throws.
\<close>

definition start_game :: "(nat \<Rightarrow> real) \<Rightarrow> room \<Rightarrow> client_id \<Rightarrow> js_error + room \<times> outs" where
  "start_game rnd rm cid =
     (case players rm of
        [] \<Rightarrow> Inl TypeError
      | p0 # _ \<Rightarrow>
          if pid p0 \<noteq> cid then Inr (rm, [(cid, Error OnlyHostCanStart)])
          else if length (players rm) < 2 then Inr (rm, [(cid, Error NeedTwoPlayers)])
          else Inr (dealGame rnd rm))"

definition restart :: "(nat \<Rightarrow> real) \<Rightarrow> room \<Rightarrow> client_id \<Rightarrow> js_error + room \<times> outs" where
  "restart rnd rm cid =
     (case players rm of
        [] \<Rightarrow> Inl TypeError
      | p0 # _ \<Rightarrow>
          if pid p0 \<noteq> cid then Inr (rm, [])
          else Inr (dealGame rnd rm))"

text \<open>
  The end of \<^verbatim>\<open>play_card\<close> and of \<^verbatim>\<open>pass\<close>: \<^verbatim>\<open>nextTurn(room)\<close>, then
  \<^verbatim>\<open>sendGameState(room)\<close>, after the messages \<open>sent\<close> already.
\<close>

definition advanceAndSend :: "room \<Rightarrow> outs \<Rightarrow> js_error + room \<times> outs" where
  "advanceAndSend rm sent =
     (case nextTurn rm of
        Inl e \<Rightarrow> Inl e
      | Inr rm' \<Rightarrow> Inr (rm', sent @ sendGameState rm'))"

text \<open>
  The update of the board in \<^verbatim>\<open>play_card\<close>. For a card that is not a 7,
  \<^verbatim>\<open>b.high\<close> is read, which throws when the entry is \<^verbatim>\<open>null\<close>.
\<close>

definition updateBoard :: "board \<Rightarrow> card \<Rightarrow> js_error + board" where
  "updateBoard brd c =
     (if card_value c = 7 then Inr (brd(card_suit c := Some \<lparr>low = 7, high = 7\<rparr>))
      else (case brd (card_suit c) of
              None \<Rightarrow> Inl TypeError
            | Some b \<Rightarrow>
                if card_value c = high b + 1
                then Inr (brd(card_suit c := Some (b\<lparr>high := card_value c\<rparr>)))
                else Inr brd))"

text \<open>
  \<open>sameCard c\<close> is the test \<^verbatim>\<open>c.suit === card.suit && c.value === card.value\<close> of
  the two callbacks of \<^verbatim>\<open>play_card\<close>, where \<^verbatim>\<open>card\<close> is \<^verbatim>\<open>msg.card\<close>, taken to be a
  card object.
\<close>

definition sameCard :: "card \<Rightarrow> card \<Rightarrow> bool" where
  "sameCard c d = (card_suit d = card_suit c \<and> card_value d = card_value c)"

definition play_card :: "room \<Rightarrow> client_id \<Rightarrow> card \<Rightarrow> js_error + room \<times> outs" where
  "play_card rm cid c =
     (if \<not> started rm \<or> gameOver rm then Inr (rm, [])
      else (case at_index (players rm) (turn rm) of
          None \<Rightarrow> Inr (rm, [])
        | Some player \<Rightarrow>
            if pid player \<noteq> cid then Inr (rm, [])
            else if find (sameCard c) (getValidMoves (hand player) (board rm)) = None
            then Inr (rm, [(cid, Error InvalidMove)])
            else (case updateBoard (board rm) c of
                Inl e \<Rightarrow> Inl e
              | Inr brd \<Rightarrow>
                  let player1 = player\<lparr>hand := filter (\<lambda>d. \<not> sameCard c d) (hand player),
                                       passed := False\<rparr>
                  in if hand player1 = []
                     then
                       (let player2 = player1\<lparr>isOut := True\<rparr>;
                            rm2 = rm\<lparr>players := (players rm)[turn rm := player2], board := brd\<rparr>;
                            sent = broadcast rm2 (PlayerOut (name player2));
                            (over, rm3) = checkGameOver rm2
                        in if over then Inr (rm3, sent @ sendGameState rm3)
                           else advanceAndSend rm3 sent)
                     else advanceAndSend
                            (rm\<lparr>players := (players rm)[turn rm := player1], board := brd\<rparr>) [])))"

definition pass :: "room \<Rightarrow> client_id \<Rightarrow> js_error + room \<times> outs" where
  "pass rm cid =
     (if \<not> started rm \<or> gameOver rm then Inr (rm, [])
      else (case at_index (players rm) (turn rm) of
          None \<Rightarrow> Inr (rm, [])
        | Some player \<Rightarrow>
            if pid player \<noteq> cid then Inr (rm, [])
            else if getValidMoves (hand player) (board rm) \<noteq> []
            then Inr (rm, [(cid, Error CannotPass)])
            else advanceAndSend
                   (rm\<lparr>players := (players rm)[turn rm := player\<lparr>passed := True\<rparr>]\<rparr>) []))"

text \<open>
  The player object that \<^verbatim>\<open>create_room\<close> and \<^verbatim>\<open>join_room\<close> build for the socket
  \<^verbatim>\<open>ws\<close>, and the room object of \<^verbatim>\<open>create_room\<close> once that player is pushed.
\<close>

definition newPlayer :: "ws \<Rightarrow> string \<Rightarrow> player" where
  "newPlayer w nm =
     \<lparr>pid = clientId w, name = nm, readyState = ws_readyState w, hand = [], passed = False,
      isOut = False\<rparr>"

definition newRoom :: "ws \<Rightarrow> string \<Rightarrow> room" where
  "newRoom w nm =
     \<lparr>players = [newPlayer w nm], deck = None, board = initBoard, started = False, turn = 0,
      gameOver = False, loser = None\<rparr>"

text \<open>
  \<^verbatim>\<open>create_room\<close>, on the registry \<^verbatim>\<open>rooms\<close>. \<open>rid\<close> is the identifier that
  \<^verbatim>\<open>Math.random().toString(36).substr(2, 6).toUpperCase()\<close> produces and \<open>nm\<close> is
  \<^verbatim>\<open>msg.name\<close>. The handler returns the registry, the socket and what is sent.
\<close>

definition create_room ::
  "(room_id \<rightharpoonup> room) \<Rightarrow> ws \<Rightarrow> room_id \<Rightarrow> string \<Rightarrow> (room_id \<rightharpoonup> room) \<times> ws \<times> outs" where
  "create_room rooms w rid nm =
     (let rm = newRoom w nm
      in (rooms(rid \<mapsto> rm), w\<lparr>roomId := Some rid\<rparr>,
          (clientId w, RoomCreated rid (clientId w))
            # broadcast rm (PlayerList (map (\<lambda>p. (pid p, name p)) (players rm)))))"

text \<open>
  \<^verbatim>\<open>join_room\<close>, once \<^verbatim>\<open>rooms[msg.roomId]\<close> is found (the handler answers "the room
  does not exist" otherwise): \<open>rid\<close> is \<^verbatim>\<open>msg.roomId\<close> and \<open>nm\<close> is
  \<^verbatim>\<open>msg.name\<close>.
\<close>

definition join_room :: "room \<Rightarrow> ws \<Rightarrow> room_id \<Rightarrow> string \<Rightarrow> room \<times> ws \<times> outs" where
  "join_room rm w rid nm =
     (if started rm then (rm, w, [(clientId w, Error GameAlreadyStarted)])
      else if length (players rm) \<ge> 4 then (rm, w, [(clientId w, Error RoomFull)])
      else
        let rm' = rm\<lparr>players := players rm @ [newPlayer w nm]\<rparr>
        in (rm', w\<lparr>roomId := Some rid\<rparr>,
            (clientId w, JoinedRoom rid (clientId w))
              # broadcast rm' (PlayerList (map (\<lambda>p. (pid p, name p)) (players rm')))))"

text \<open>
  The \<^verbatim>\<open>close\<close> listener of the socket of client \<open>cid\<close>, once its room is found: the
  room left, which is \<open>None\<close> when the room is deleted, and what is sent.
\<close>

definition close :: "room \<Rightarrow> client_id \<Rightarrow> room option \<times> outs" where
  "close rm cid =
     (let rm1 = rm\<lparr>players := filter (\<lambda>p. pid p \<noteq> cid) (players rm)\<rparr>
      in if length (players rm1) = 0 then (None, [])
         else
           let sent = broadcast rm1 (PlayerList (map (\<lambda>p. (pid p, name p)) (players rm1)))
           in if started rm1 \<and> \<not> gameOver rm1
              then
                (let rm2 = (if turn rm1 \<ge> length (players rm1) then rm1\<lparr>turn := 0\<rparr> else rm1)
                 in (Some rm2, sent @ sendGameState rm2))
              else (Some rm1, sent))"

subsection \<open>Sequences of events\<close>

text \<open>
  What happens to a room between two deals: a \<^verbatim>\<open>join_room\<close>, a \<^verbatim>\<open>play_card\<close> or a
  \<^verbatim>\<open>pass\<close> message with its sender, or the close of the socket of a client. A list of
  them is handled in order, to the room left, which is \<open>None\<close> when a close has
  deleted the room.
\<close>

datatype event =
    JoinRoom ws room_id string
  | PlayCard client_id card
  | Pass client_id
  | Close client_id

definition applyEvent :: "room \<Rightarrow> event \<Rightarrow> js_error + room option \<times> outs" where
  "applyEvent rm e =
     (case e of
        JoinRoom w rid nm \<Rightarrow> (case join_room rm w rid nm of (rm', w', sent) \<Rightarrow> Inr (Some rm', sent))
      | PlayCard cid c \<Rightarrow> map_sum id (\<lambda>(rm', sent). (Some rm', sent)) (play_card rm cid c)
      | Pass cid \<Rightarrow> map_sum id (\<lambda>(rm', sent). (Some rm', sent)) (pass rm cid)
      | Close cid \<Rightarrow> Inr (close rm cid))"

fun applyEvents :: "room \<Rightarrow> event list \<Rightarrow> js_error + room option" where
  "applyEvents rm [] = Inr (Some rm)"
| "applyEvents rm (e # es) =
     (case applyEvent rm e of
        Inl x \<Rightarrow> Inl x
      | Inr (None, sent) \<Rightarrow> Inr None
      | Inr (Some rm', sent) \<Rightarrow> applyEvents rm' es)"

text \<open>
  The order of two board entries of one suit: an empty run is below every run, and a
  run is below the runs whose \<open>high\<close> is at least its own.
\<close>

fun run_le :: "run option \<Rightarrow> run option \<Rightarrow> bool" where
  "run_le None r = True"
| "run_le (Some a) None = False"
| "run_le (Some a) (Some b) = (high a \<le> high b)"

subsection \<open>A game in progress\<close>

text \<open>
  Two players late in a game: spades and hearts are complete, diamonds stand at the 9,
  no club has been played, and the thirteen cards left are in the two hands. It is
  Alice's turn (seat 0, the host).
\<close>

definition ex_board :: board where
  "ex_board =
     initBoard(Spades := Some \<lparr>low = 7, high = 14\<rparr>, Hearts := Some \<lparr>low = 7, high = 14\<rparr>,
               Diamonds := Some \<lparr>low = 7, high = 9\<rparr>)"

definition alice :: player where
  "alice =
     \<lparr>pid = ''a'', name = ''Alice'', readyState = 1,
      hand = [\<lparr>card_suit = Diamonds, card_value = 10\<rparr>, \<lparr>card_suit = Diamonds, card_value = 12\<rparr>,
              \<lparr>card_suit = Diamonds, card_value = 14\<rparr>, \<lparr>card_suit = Clubs, card_value = 7\<rparr>,
              \<lparr>card_suit = Clubs, card_value = 9\<rparr>, \<lparr>card_suit = Clubs, card_value = 11\<rparr>,
              \<lparr>card_suit = Clubs, card_value = 13\<rparr>],
      passed = False, isOut = False\<rparr>"

definition bob :: player where
  "bob =
     \<lparr>pid = ''b'', name = ''Bob'', readyState = 1,
      hand = [\<lparr>card_suit = Diamonds, card_value = 11\<rparr>, \<lparr>card_suit = Diamonds, card_value = 13\<rparr>,
              \<lparr>card_suit = Clubs, card_value = 8\<rparr>, \<lparr>card_suit = Clubs, card_value = 10\<rparr>,
              \<lparr>card_suit = Clubs, card_value = 12\<rparr>, \<lparr>card_suit = Clubs, card_value = 14\<rparr>],
      passed = True, isOut = False\<rparr>"

definition ex_room :: room where
  "ex_room =
     \<lparr>players = [alice, bob], deck = Some orderedDeck, board = ex_board, started = True,
      turn = 0, gameOver = False, loser = None\<rparr>"

text \<open>The socket of a third client, and a lobby with one player.\<close>

definition carol_ws :: ws where
  "carol_ws = \<lparr>clientId = ''c'', roomId = None, ws_readyState = 1\<rparr>"

definition ex_lobby :: room where
  "ex_lobby = newRoom carol_ws ''Carol''"

text \<open>
  The end of a game of three, as \<^verbatim>\<open>play_card\<close> hands it to \<^verbatim>\<open>checkGameOver\<close>: Bob
  went out before, Carol (seat 2, whose turn it is) has just played her last card, the
  king of clubs, and the player left, who joined with the empty name, holds the ace.
\<close>

definition ex_last :: player where
  "ex_last =
     \<lparr>pid = ''a'', name = [], readyState = 1,
      hand = [\<lparr>card_suit = Clubs, card_value = 14\<rparr>], passed = True, isOut = False\<rparr>"

definition ex_ending :: room where
  "ex_ending =
     \<lparr>players = [ex_last, bob\<lparr>hand := [], isOut := True, passed := False\<rparr>,
                 \<lparr>pid = ''c'', name = ''Carol'', readyState = 1, hand = [], passed = False,
                  isOut = True\<rparr>],
      deck = Some orderedDeck,
      board = ex_board(Diamonds := Some \<lparr>low = 7, high = 14\<rparr>,
                       Clubs := Some \<lparr>low = 7, high = 13\<rparr>),
      started = True, turn = 2, gameOver = False, loser = None\<rparr>"

section \<open>Properties\<close>

subsection \<open>Legal moves\<close>

lemma getValidMoves_filter: "getValidMoves hnd brd = filter (isValidMove brd) hnd"
  by (induction hnd) simp_all

lemma set_getValidMoves:
  "set (getValidMoves hnd brd) = {c \<in> set hnd. isValidMove brd c}"
  by (simp add: getValidMoves_filter)

text \<open>
  Claim C1. For every hand and board, a card of rank 7 is among the legal moves exactly
  when it is in the hand and the run of its suit is empty; a card of rank \<open>r > 7\<close> is
  among them exactly when it is in the hand, the run of its suit is non-empty with high
  \<open>r - 1\<close>, and \<open>r\<close> is at most 14: the ace caps a run and nothing is played above it.
\<close>

theorem getValidMoves_legal:
  "(card_value c = 7 \<longrightarrow>
      (c \<in> set (getValidMoves hnd brd) \<longleftrightarrow> c \<in> set hnd \<and> brd (card_suit c) = None))
   \<and> (7 < card_value c \<longrightarrow>
      (c \<in> set (getValidMoves hnd brd) \<longleftrightarrow>
         c \<in> set hnd \<and> (\<exists>b. brd (card_suit c) = Some b \<and> high b = card_value c - 1)
         \<and> card_value c \<le> 14))
   \<and> (14 < card_value c \<longrightarrow> c \<notin> set (getValidMoves hnd brd))"
  by (auto simp: set_getValidMoves isValidMove_def split: option.splits)

theorem getValidMoves_legal_witness:
  "card_value \<lparr>card_suit = Clubs, card_value = 7\<rparr> = 7
   \<and> \<lparr>card_suit = Clubs, card_value = 7\<rparr> \<in> set (getValidMoves (hand alice) ex_board)
   \<and> 7 < card_value \<lparr>card_suit = Diamonds, card_value = 10\<rparr>
   \<and> \<lparr>card_suit = Diamonds, card_value = 10\<rparr> \<in> set (getValidMoves (hand alice) ex_board)
   \<and> \<lparr>card_suit = Diamonds, card_value = 12\<rparr> \<notin> set (getValidMoves (hand alice) ex_board)
   \<and> \<lparr>card_suit = Clubs, card_value = 9\<rparr> \<notin> set (getValidMoves (hand alice) ex_board)"
  using getValidMoves_legal [of "\<lparr>card_suit = Clubs, card_value = 7\<rparr>" "hand alice" ex_board]
    getValidMoves_legal [of "\<lparr>card_suit = Diamonds, card_value = 10\<rparr>" "hand alice" ex_board]
    getValidMoves_legal [of "\<lparr>card_suit = Diamonds, card_value = 12\<rparr>" "hand alice" ex_board]
    getValidMoves_legal [of "\<lparr>card_suit = Clubs, card_value = 9\<rparr>" "hand alice" ex_board]
  by (simp add: alice_def ex_board_def initBoard_def)

subsection \<open>The deck\<close>

lemma draw_le:
  assumes "0 \<le> (r::real)" "r < 1"
  shows "nat \<lfloor>r * real (Suc i + 1)\<rfloor> \<le> Suc i"
proof -
  have "r * real (Suc i + 1) < real (Suc i + 1)"
    using assms by (simp add: mult_less_cancel_right1)
  hence "\<lfloor>r * real (Suc i + 1)\<rfloor> < int (Suc i + 1)"
    by (simp add: floor_less_iff)
  thus ?thesis by linarith
qed

lemma mset_shuffle:
  "\<forall>k. 0 \<le> rnd k \<and> rnd k < 1 \<Longrightarrow> i < length dck \<Longrightarrow> mset (shuffle rnd i dck) = mset dck"
proof (induction i arbitrary: dck)
  case 0
  show ?case by simp
next
  case (Suc i)
  let ?j = "nat \<lfloor>rnd (Suc i) * real (Suc i + 1)\<rfloor>"
  have j: "?j \<le> Suc i" using Suc.prems(1) by (intro draw_le) auto
  hence jl: "?j < length dck" using Suc.prems(2) by simp
  have "mset (dck[Suc i := dck ! ?j, ?j := dck ! Suc i]) = mset dck"
    using jl Suc.prems(2) by (rule mset_swap)
  moreover have "i < length (dck[Suc i := dck ! ?j, ?j := dck ! Suc i])"
    using Suc.prems(2) by simp
  ultimately show ?case
    using Suc.IH[OF Suc.prems(1), of "dck[Suc i := dck ! ?j, ?j := dck ! Suc i]"]
    by (simp add: Let_def)
qed

lemma upto_7_14: "[7..14] = [7,8,9,10,11,12,13,14::int]"
  by (simp add: upto.simps)

lemma length_orderedDeck: "length orderedDeck = 32"
  by (simp add: orderedDeck_def suits_def upto_7_14)

lemma distinct_orderedDeck: "distinct orderedDeck"
  by (simp add: orderedDeck_def suits_def upto_7_14)

lemma set_orderedDeck: "set orderedDeck = {c. 7 \<le> card_value c \<and> card_value c \<le> 14}"
proof (rule set_eqI)
  fix c :: card
  obtain s v where c: "c = \<lparr>card_suit = s, card_value = v\<rparr>" by (cases c) auto
  have "c \<in> set orderedDeck \<longleftrightarrow> v \<in> set [7..14]"
    unfolding orderedDeck_def suits_def c by (cases s) auto
  moreover have "v \<in> set [7..14] \<longleftrightarrow> 7 \<le> v \<and> v \<le> 14"
    by (simp only: set_upto atLeastAtMost_iff)
  ultimately show "c \<in> set orderedDeck \<longleftrightarrow> c \<in> {c. 7 \<le> card_value c \<and> card_value c \<le> 14}"
    by (simp only: c mem_Collect_eq card.simps)
qed

text \<open>
  Claim C9. Whatever \<^verbatim>\<open>Math.random\<close> returns in \<open>[0, 1)\<close>, the deck of \<^verbatim>\<open>createDeck\<close>
  is a permutation of the deck before the shuffle: it has 32 cards, no card twice, and
  its cards are exactly the cards of the four suits with a rank from 7 to 14.
\<close>

theorem createDeck_permutation:
  assumes "\<forall>i. 0 \<le> rnd i \<and> rnd i < 1"
  shows "mset (createDeck rnd) = mset orderedDeck
       \<and> length (createDeck rnd) = 32
       \<and> distinct (createDeck rnd)
       \<and> set (createDeck rnd) = {c. 7 \<le> card_value c \<and> card_value c \<le> 14}"
proof -
  have m: "mset (createDeck rnd) = mset orderedDeck"
    unfolding createDeck_def using assms by (intro mset_shuffle) (simp_all add: length_orderedDeck)
  have "length (createDeck rnd) = 32"
    using mset_eq_length[OF m] by (simp add: length_orderedDeck)
  moreover have "distinct (createDeck rnd)"
    using mset_eq_imp_distinct_iff[OF m] distinct_orderedDeck by simp
  moreover have "set (createDeck rnd) = {c. 7 \<le> card_value c \<and> card_value c \<le> 14}"
    using mset_eq_setD[OF m] set_orderedDeck by simp
  ultimately show ?thesis using m by simp
qed

theorem createDeck_permutation_witness:
  "(\<forall>i::nat. (0::real) \<le> 0 \<and> (0::real) < 1)
   \<and> mset (createDeck (\<lambda>i. 0)) = mset orderedDeck
   \<and> length (createDeck (\<lambda>i. 0)) = 32
   \<and> distinct (createDeck (\<lambda>i. 0))
   \<and> set (createDeck (\<lambda>i. 0)) = {c. 7 \<le> card_value c \<and> card_value c \<le> 14}"
  using createDeck_permutation [of "\<lambda>i. 0"] by simp

subsection \<open>Advancing the turn\<close>

lemma nextTurn_loop_count:
  "cnt \<le> length ps \<Longrightarrow> snd (nextTurn_loop ps nxt cnt) \<le> length ps"
proof (induction ps nxt cnt rule: nextTurn_loop.induct)
  case (1 ps nxt cnt)
  show ?case
  proof (cases "isOut (ps ! nxt) \<and> cnt < length ps")
    case True
    then show ?thesis using "1.IH" by (subst nextTurn_loop.simps) simp
  next
    case False
    then show ?thesis using "1.prems" by (subst nextTurn_loop.simps) auto
  qed
qed

lemma nextTurn_loop_path:
  assumes "nxt < length ps"
  shows "\<exists>k. snd (nextTurn_loop ps nxt cnt) = cnt + k
           \<and> fst (nextTurn_loop ps nxt cnt) = (nxt + k) mod length ps
           \<and> (\<forall>j<k. isOut (ps ! ((nxt + j) mod length ps)))"
  using assms
proof (induction ps nxt cnt rule: nextTurn_loop.induct)
  case (1 ps nxt cnt)
  show ?case
  proof (cases "isOut (ps ! nxt) \<and> cnt < length ps")
    case True
    have lt: "(nxt + 1) mod length ps < length ps"
      using "1.prems" by (intro mod_less_divisor) auto
    from "1.IH"[OF True lt] obtain k where
      k: "snd (nextTurn_loop ps ((nxt + 1) mod length ps) (cnt + 1)) = cnt + 1 + k"
         "fst (nextTurn_loop ps ((nxt + 1) mod length ps) (cnt + 1)) = ((nxt + 1) mod length ps + k) mod length ps"
         "\<forall>j<k. isOut (ps ! (((nxt + 1) mod length ps + j) mod length ps))"
      by blast
    have unf: "nextTurn_loop ps nxt cnt = nextTurn_loop ps ((nxt + 1) mod length ps) (cnt + 1)"
      using True by (subst nextTurn_loop.simps) simp
    have shift: "\<And>j. ((nxt + 1) mod length ps + j) mod length ps = (nxt + Suc j) mod length ps"
      by (simp add: mod_add_left_eq)
    have "\<forall>j<Suc k. isOut (ps ! ((nxt + j) mod length ps))"
    proof (intro allI impI)
      fix j assume j: "j < Suc k"
      show "isOut (ps ! ((nxt + j) mod length ps))"
      proof (cases j)
        case 0
        then show ?thesis using True "1.prems" by simp
      next
        case (Suc j')
        then show ?thesis using k(3) j shift[of j'] by auto
      qed
    qed
    moreover have "snd (nextTurn_loop ps nxt cnt) = cnt + Suc k" using unf k(1) by simp
    moreover have "fst (nextTurn_loop ps nxt cnt) = (nxt + Suc k) mod length ps"
      using unf k(2) shift[of k] by simp
    ultimately show ?thesis by blast
  next
    case False
    hence "nextTurn_loop ps nxt cnt = (nxt, cnt)" by (subst nextTurn_loop.simps) auto
    then show ?thesis using "1.prems" by (intro exI[of _ 0]) simp
  qed
qed

lemma nextTurn_loop_stops:
  "fst (nextTurn_loop ps nxt cnt) = nx \<Longrightarrow> snd (nextTurn_loop ps nxt cnt) = c
   \<Longrightarrow> \<not> isOut (ps ! nx) \<or> c \<ge> length ps"
proof (induction ps nxt cnt rule: nextTurn_loop.induct)
  case (1 ps nxt cnt)
  show ?case
  proof (cases "isOut (ps ! nxt) \<and> cnt < length ps")
    case True
    then show ?thesis using "1.IH" "1.prems" by (subst (asm) (1 2) nextTurn_loop.simps) simp
  next
    case False
    then show ?thesis using "1.prems" by (subst (asm) (1 2) nextTurn_loop.simps) auto
  qed
qed

lemma nextTurn_loop_finds:
  assumes nx: "nxt < length ps" and ex: "\<exists>p\<in>set ps. \<not> isOut p"
  shows "\<exists>k<length ps. fst (nextTurn_loop ps nxt 0) = (nxt + k) mod length ps
           \<and> snd (nextTurn_loop ps nxt 0) = k
           \<and> \<not> isOut (ps ! ((nxt + k) mod length ps))
           \<and> (\<forall>j<k. isOut (ps ! ((nxt + j) mod length ps)))"
proof -
  let ?n = "length ps"
  from nextTurn_loop_path[OF nx, of 0] obtain k where
    k: "snd (nextTurn_loop ps nxt 0) = k"
       "fst (nextTurn_loop ps nxt 0) = (nxt + k) mod ?n"
       "\<forall>j<k. isOut (ps ! ((nxt + j) mod ?n))" by auto
  from ex obtain i where i: "i < ?n" "\<not> isOut (ps ! i)" by (auto simp: in_set_conv_nth)
  \<comment> \<open>seat \<open>i\<close> is reached from \<open>nxt\<close> in fewer than \<open>n\<close> steps\<close>
  define d where "d = (i + ?n - nxt) mod ?n"
  have dn: "d < ?n" unfolding d_def using nx by (intro mod_less_divisor) auto
  have "(nxt + d) mod ?n = i"
  proof -
    have "(nxt + d) mod ?n = (nxt + (i + ?n - nxt)) mod ?n"
      unfolding d_def by (simp add: mod_add_right_eq)
    also have "nxt + (i + ?n - nxt) = i + ?n" using nx by simp
    also have "(i + ?n) mod ?n = i" using i(1) by simp
    finally show ?thesis .
  qed
  hence "\<not> isOut (ps ! ((nxt + d) mod ?n))" using i(2) by simp
  hence "\<not> d < k" using k(3) by blast
  hence kd: "k \<le> d" by simp
  hence kn: "k < ?n" using dn by simp
  from nextTurn_loop_stops[OF k(2) k(1)] kn
  have "\<not> isOut (ps ! ((nxt + k) mod ?n))" by simp
  thus ?thesis using k kn by blast
qed

text \<open>
  Claim C7. The loop of \<^verbatim>\<open>nextTurn\<close> ends with its counter at most the number of
  players, whatever the players are. When a player is not eliminated, \<^verbatim>\<open>nextTurn\<close>
  changes the turn only, to the first seat after the current one, in circular order,
  whose player is not eliminated: every seat it steps over is eliminated.
\<close>

theorem nextTurn_skips_eliminated:
  "snd (nextTurn_loop (players rm) ((turn rm + 1) mod length (players rm)) 0)
     \<le> length (players rm)
   \<and> ((\<exists>p\<in>set (players rm). \<not> isOut p) \<longrightarrow>
        (\<exists>rm' k. nextTurn rm = Inr rm' \<and> rm' = rm\<lparr>turn := turn rm'\<rparr>
           \<and> turn rm' < length (players rm)
           \<and> \<not> isOut (players rm ! turn rm')
           \<and> k < length (players rm)
           \<and> turn rm' = (turn rm + 1 + k) mod length (players rm)
           \<and> (\<forall>j<k. isOut (players rm ! ((turn rm + 1 + j) mod length (players rm))))))"
proof (intro conjI impI)
  show "snd (nextTurn_loop (players rm) ((turn rm + 1) mod length (players rm)) 0)
     \<le> length (players rm)"
    by (rule nextTurn_loop_count) simp
next
  let ?ps = "players rm" and ?n = "length (players rm)"
  let ?s = "(turn rm + 1) mod ?n"
  assume ex: "\<exists>p\<in>set ?ps. \<not> isOut p"
  hence ne: "?ps \<noteq> []" by auto
  hence s: "?s < ?n" by simp
  from nextTurn_loop_finds[OF s ex] obtain k where
    k: "k < ?n" "fst (nextTurn_loop ?ps ?s 0) = (?s + k) mod ?n"
       "\<not> isOut (?ps ! ((?s + k) mod ?n))"
       "\<forall>j<k. isOut (?ps ! ((?s + j) mod ?n))" by blast
  have sh: "\<And>j. (?s + j) mod ?n = (turn rm + 1 + j) mod ?n"
    by (simp add: mod_add_left_eq)
  let ?rm' = "rm\<lparr>turn := (turn rm + 1 + k) mod ?n\<rparr>"
  have "nextTurn rm = Inr ?rm'" using ne k(2) sh[of k] by (simp add: nextTurn_def)
  moreover have "turn ?rm' < ?n" using ne by simp
  moreover have "\<not> isOut (?ps ! turn ?rm')" using k(3) sh[of k] by simp
  moreover have "\<forall>j<k. isOut (?ps ! ((turn rm + 1 + j) mod ?n))" using k(4) sh by simp
  ultimately show "\<exists>rm' k. nextTurn rm = Inr rm' \<and> rm' = rm\<lparr>turn := turn rm'\<rparr>
           \<and> turn rm' < ?n \<and> \<not> isOut (?ps ! turn rm') \<and> k < ?n
           \<and> turn rm' = (turn rm + 1 + k) mod ?n
           \<and> (\<forall>j<k. isOut (?ps ! ((turn rm + 1 + j) mod ?n)))"
    using k(1) by (intro exI[of _ ?rm'] exI[of _ k]) simp
qed

theorem nextTurn_skips_eliminated_witness:
  "(\<exists>p\<in>set (players (ex_ending\<lparr>turn := 0\<rparr>)). \<not> isOut p)
   \<and> nextTurn (ex_ending\<lparr>turn := 0\<rparr>) = Inr (ex_ending\<lparr>turn := 0\<rparr>)
   \<and> isOut (players ex_ending ! 1) \<and> isOut (players ex_ending ! 2)
   \<and> \<not> isOut (players ex_ending ! 0)"
proof -
  let ?rm = "ex_ending\<lparr>turn := 0\<rparr>"
  have ps: "length (players ?rm) = 3" "\<not> isOut (players ?rm ! 0)" "isOut (players ?rm ! 1)"
    "isOut (players ?rm ! 2)"
    by (simp_all add: ex_ending_def ex_last_def bob_def)
  have h: "\<exists>p\<in>set (players ?rm). \<not> isOut p"
    by (simp add: ex_ending_def ex_last_def)
  with nextTurn_skips_eliminated [of ?rm] obtain rm' k where
    r: "nextTurn ?rm = Inr rm'" "rm' = ?rm\<lparr>turn := turn rm'\<rparr>" "turn rm' < length (players ?rm)"
       "\<not> isOut (players ?rm ! turn rm')"
    by blast
  have "turn rm' = 0"
  proof -
    from r(3) ps(1) have "turn rm' = 0 \<or> turn rm' = 1 \<or> turn rm' = 2" by auto
    with r(4) ps show ?thesis by auto
  qed
  with r(1,2) have "nextTurn ?rm = Inr ?rm" by simp
  with h ps show ?thesis by simp
qed

subsection \<open>The end of the game\<close>

text \<open>
  Claim C6, amended. \<^verbatim>\<open>checkGameOver\<close> returns true exactly when at most one player is
  not eliminated; it leaves the room as it is when it returns false and sets
  \<^verbatim>\<open>gameOver\<close> when it returns true. When exactly one player remains and its name is
  not empty, the loser is that name; when none remains, the loser is the default label.
\<close>

theorem checkGameOver_result:
  "fst (checkGameOver rm) = (length (filter (\<lambda>p. \<not> isOut p) (players rm)) \<le> 1)
   \<and> (\<not> fst (checkGameOver rm) \<longrightarrow> snd (checkGameOver rm) = rm)
   \<and> (fst (checkGameOver rm) \<longrightarrow> gameOver (snd (checkGameOver rm)))
   \<and> (\<forall>p. filter (\<lambda>p. \<not> isOut p) (players rm) = [p] \<and> name p \<noteq> [] \<longrightarrow>
         snd (checkGameOver rm) = rm\<lparr>gameOver := True, loser := Some (name p)\<rparr>)
   \<and> (filter (\<lambda>p. \<not> isOut p) (players rm) = [] \<longrightarrow>
         snd (checkGameOver rm) = rm\<lparr>gameOver := True, loser := Some lastPlayerLabel\<rparr>)"
  by (simp add: checkGameOver_def Let_def)

theorem checkGameOver_result_witness:
  "filter (\<lambda>p. \<not> isOut p) (players (ex_ending\<lparr>players := alice # tl (players ex_ending)\<rparr>)) = [alice]
   \<and> name alice \<noteq> []
   \<and> fst (checkGameOver (ex_ending\<lparr>players := alice # tl (players ex_ending)\<rparr>))
   \<and> loser (snd (checkGameOver (ex_ending\<lparr>players := alice # tl (players ex_ending)\<rparr>)))
       = Some ''Alice''
   \<and> \<not> fst (checkGameOver ex_room) \<and> snd (checkGameOver ex_room) = ex_room"
proof -
  let ?rm = "ex_ending\<lparr>players := alice # tl (players ex_ending)\<rparr>"
  have f: "filter (\<lambda>p. \<not> isOut p) (players ?rm) = [alice]"
    by (simp add: ex_ending_def alice_def bob_def)
  have n: "name alice \<noteq> []" "name alice = ''Alice''" by (simp_all add: alice_def)
  have g: "length (filter (\<lambda>p. \<not> isOut p) (players ex_room)) = 2"
    by (simp add: ex_room_def alice_def bob_def)
  show ?thesis
    using checkGameOver_result [of ?rm] checkGameOver_result [of ex_room] f n g by simp
qed

text \<open>
  The claim as stated fails for a last player whose name is the empty string: the
  default label is reported, not the name.
\<close>

theorem checkGameOver_empty_name:
  "filter (\<lambda>p. \<not> isOut p) (players ex_ending) = [ex_last]
   \<and> fst (checkGameOver ex_ending)
   \<and> loser (snd (checkGameOver ex_ending)) = Some lastPlayerLabel
   \<and> lastPlayerLabel \<noteq> name ex_last"
  by (simp add: checkGameOver_def ex_ending_def ex_last_def bob_def lastPlayerLabel_def)

subsection \<open>The deal\<close>

lemma length_deal_fold:
  "length (foldl (\<lambda>hands (i, c). hands[i mod n := hands ! (i mod n) @ [c]]) hs xs) = length hs"
  by (induction xs arbitrary: hs) (auto split: prod.splits)

lemma length_dealCards: "length (dealCards dck n) = n"
  by (simp add: dealCards_def length_deal_fold)

lemma map_hand_deal:
  assumes "length hands = length ps"
  shows "map hand (map (\<lambda>(i, p). p\<lparr>hand := hands ! i, isOut := False, passed := False\<rparr>)
                    (enumerate 0 ps)) = hands"
  using assms by (intro nth_equalityI) (simp_all add: nth_enumerate_eq)

lemma map_pid_deal:
  "map pid (map (\<lambda>(i, p). p\<lparr>hand := hands ! i, isOut := False, passed := False\<rparr>)
                    (enumerate 0 ps)) = map pid ps"
  by (intro nth_equalityI) (simp_all add: nth_enumerate_eq)

lemma flags_deal:
  "q \<in> set (map (\<lambda>(i, p). p\<lparr>hand := hands ! i, isOut := False, passed := False\<rparr>)
                    (enumerate 0 ps)) \<Longrightarrow> \<not> isOut q \<and> \<not> passed q"
  by auto

lemma dealGame_result:
  "\<exists>rm'. dealGame rnd rm = (rm', broadcast rm' GameStarted @ sendGameState rm')
     \<and> deck rm' = Some (createDeck rnd)
     \<and> map hand (players rm') = dealCards (createDeck rnd) (length (players rm))
     \<and> map pid (players rm') = map pid (players rm)
     \<and> (\<forall>p\<in>set (players rm'). \<not> isOut p \<and> \<not> passed p)
     \<and> board rm' = initBoard \<and> started rm' \<and> \<not> gameOver rm' \<and> loser rm' = None
     \<and> turn rm' = firstPlayer (players rm')"
proof -
  let ?hands = "dealCards (createDeck rnd) (length (players rm))"
  let ?ps = "map (\<lambda>(i, p). p\<lparr>hand := ?hands ! i, isOut := False, passed := False\<rparr>)
               (enumerate 0 (players rm))"
  let ?rm' = "rm\<lparr>players := ?ps, deck := Some (createDeck rnd), board := initBoard,
                  started := True, gameOver := False, loser := None,
                  turn := firstPlayer ?ps\<rparr>"
  have "dealGame rnd rm = (?rm', broadcast ?rm' GameStarted @ sendGameState ?rm')"
    by (simp add: dealGame_def Let_def)
  moreover have "map hand (players ?rm') = ?hands"
    by (simp add: map_hand_deal length_dealCards del: map_map)
  moreover have "map pid (players ?rm') = map pid (players rm)"
    by (simp add: map_pid_deal del: map_map)
  moreover have "\<forall>p\<in>set (players ?rm'). \<not> isOut p \<and> \<not> passed p"
    using flags_deal[of _ ?hands "players rm"] by simp
  ultimately show ?thesis
    by (intro exI[of _ ?rm']) simp
qed

text \<open>
  With every draw of \<^verbatim>\<open>Math.random\<close> equal to 0 each swap is with index 0, and the
  shuffle moves the first card of the deck to its end.
\<close>

lemma shuffle_zero:
  "shuffle (\<lambda>i. 0) (Suc i) dck = shuffle (\<lambda>i. 0) i (dck[Suc i := dck ! 0, 0 := dck ! Suc i])"
  by simp

lemma createDeck_zero:
  "createDeck (\<lambda>i. 0) = tl orderedDeck @ [hd orderedDeck]"
  by (simp add: createDeck_def orderedDeck_def suits_def upto_7_14 eval_nat_numeral
      del: shuffle.simps add: shuffle_zero shuffle.simps(1))

lemma deal_zero_2:
  "map length (dealCards (createDeck (\<lambda>i. 0)) 2) = [16, 16]"
proof -
  have r: "replicate 2 ([] :: card list) = [[], []]"
    by (simp add: numeral_2_eq_2)
  have "foldl (\<lambda>hands (i, c). hands[i mod 2 := hands ! (i mod 2) @ [c]]) [[], []]
          (enumerate 0 (createDeck (\<lambda>i. 0)))
        = [filter (\<lambda>c. even (card_value c)) (createDeck (\<lambda>i. 0)),
           filter (\<lambda>c. odd (card_value c)) (createDeck (\<lambda>i. 0))]"
    by (simp add: createDeck_zero orderedDeck_def suits_def upto_7_14 enumerate_eq_zip upt_rec)
  hence "dealCards (createDeck (\<lambda>i. 0)) 2
        = [filter (\<lambda>c. even (card_value c)) (createDeck (\<lambda>i. 0)),
           filter (\<lambda>c. odd (card_value c)) (createDeck (\<lambda>i. 0))]"
    unfolding dealCards_def r .
  thus ?thesis
    by (simp add: createDeck_zero orderedDeck_def suits_def upto_7_14)
qed

lemma deal_one_fold:
  "foldl (\<lambda>hands (i, c). hands[i mod Suc 0 := hands ! (i mod Suc 0) @ [c]]) [acc]
     (enumerate k xs) = [acc @ xs]"
  by (induction xs arbitrary: acc k) simp_all

lemma dealCards_one: "dealCards dck (Suc 0) = [dck]"
  using deal_one_fold [of "[]" 0 dck] by (simp add: dealCards_def)

lemma sent_no_error:
  "list_all (\<lambda>m. \<not> is_Error (snd m)) (broadcast rm GameStarted @ sendGameState rm)"
  by (auto simp: broadcast_def sendGameState_def gameStateFor_def list_all_iff)

subsection \<open>The example rooms\<close>

lemma ex_room_fields:
  "started ex_room" "\<not> gameOver ex_room" "board ex_room = ex_board"
  "at_index (players ex_room) (turn ex_room) = Some alice"
  "map pid (players ex_room) = [''a'', ''b'']"
  by (simp_all add: ex_room_def at_index_def alice_def bob_def)

lemma ex_ids: "pid alice = ''a''" "pid bob = ''b''"
  by (simp_all add: alice_def bob_def)

lemma alice_moves:
  "getValidMoves (hand alice) ex_board =
     [\<lparr>card_suit = Diamonds, card_value = 10\<rparr>, \<lparr>card_suit = Clubs, card_value = 7\<rparr>]"
  by (simp add: alice_def ex_board_def initBoard_def isValidMove_def)

subsection \<open>The handlers\<close>

lemma sameCard_eq: "sameCard c d \<longleftrightarrow> d = c"
  by (auto simp: sameCard_def intro: card.equality)

lemma find_sameCard: "find (sameCard c) xs = None \<longleftrightarrow> c \<notin> set xs"
  by (auto simp: find_None_iff sameCard_eq)

lemma run_le_refl: "run_le r r"
  by (cases r) simp_all

lemma run_le_trans: "run_le a b \<Longrightarrow> run_le b c \<Longrightarrow> run_le a c"
  by (cases a; cases b; cases c) simp_all

lemma updateBoard_valid:
  assumes "isValidMove brd c"
  shows "\<exists>brd'. updateBoard brd c = Inr brd' \<and> (\<forall>s. run_le (brd s) (brd' s))"
proof (cases "card_value c = 7")
  case True
  with assms have "brd (card_suit c) = None" by (simp add: isValidMove_def)
  hence "\<forall>s. run_le (brd s) ((brd(card_suit c := Some \<lparr>low = 7, high = 7\<rparr>)) s)"
    by (simp add: run_le_refl)
  with True show ?thesis by (simp add: updateBoard_def)
next
  case False
  with assms obtain b where b: "brd (card_suit c) = Some b" "card_value c = high b + 1"
    by (auto simp: isValidMove_def split: option.splits)
  hence "\<forall>s. run_le (brd s) ((brd(card_suit c := Some (b\<lparr>high := card_value c\<rparr>))) s)"
    by (simp add: run_le_refl)
  with False b show ?thesis by (simp add: updateBoard_def)
qed

lemma advanceAndSend_board:
  assumes "players rm \<noteq> []"
  shows "\<exists>rm'. advanceAndSend rm sent = Inr (rm', sent @ sendGameState rm')
           \<and> board rm' = board rm"
  using assms by (simp add: advanceAndSend_def nextTurn_def)

lemma checkGameOver_keeps:
  "board (snd (checkGameOver rm)) = board rm \<and> players (snd (checkGameOver rm)) = players rm"
  by (simp add: checkGameOver_def Let_def)

lemma play_card_board:
  "\<exists>rm' sent. play_card rm cid c = Inr (rm', sent) \<and> (\<forall>s. run_le (board rm s) (board rm' s))"
proof -
  have same: "\<exists>rm' sent. Inr (rm, out) = (Inr (rm', sent) :: js_error + room \<times> outs)
      \<and> (\<forall>s. run_le (board rm s) (board rm' s))" for out
    by (simp add: run_le_refl)
  show ?thesis
  proof (cases "\<not> started rm \<or> gameOver rm")
    case True
    then show ?thesis using same[of "[]"] by (simp add: play_card_def)
  next
    case run: False
    show ?thesis
    proof (cases "at_index (players rm) (turn rm)")
      case None
      then show ?thesis using run same[of "[]"] by (simp add: play_card_def)
    next
      case (Some player)
      hence ne: "players rm \<noteq> []" by (auto simp: at_index_def split: if_splits)
      show ?thesis
      proof (cases "pid player \<noteq> cid \<or> find (sameCard c) (getValidMoves (hand player) (board rm)) = None")
        case True
        then show ?thesis
          using run Some same[of "[]"] same[of "[(cid, Error InvalidMove)]"]
          by (auto simp: play_card_def)
      next
        case False
        then obtain d where
          fd: "pid player = cid" "find (sameCard c) (getValidMoves (hand player) (board rm)) = Some d"
          by auto
        have "c \<in> set (getValidMoves (hand player) (board rm))"
          using False by (simp add: find_sameCard)
        hence "isValidMove (board rm) c" by (simp add: set_getValidMoves)
        from updateBoard_valid[OF this] obtain brd where
          brd: "updateBoard (board rm) c = Inr brd" "\<forall>s. run_le (board rm s) (brd s)" by blast
        let ?p1 = "player\<lparr>hand := filter (\<lambda>d. \<not> sameCard c d) (hand player), passed := False\<rparr>"
        show ?thesis
        proof (cases "hand ?p1 = []")
          case h: False
          let ?rm1 = "rm\<lparr>players := (players rm)[turn rm := ?p1], board := brd\<rparr>"
          have "players ?rm1 \<noteq> []" using ne by simp
          from advanceAndSend_board[OF this, of "[]"] obtain rm' where
            "advanceAndSend ?rm1 [] = Inr (rm', [] @ sendGameState rm')" "board rm' = brd"
            by auto
          moreover have "play_card rm cid c = advanceAndSend ?rm1 []"
            using run Some fd brd(1) h by (simp add: play_card_def)
          ultimately show ?thesis using brd(2) by auto
        next
          case h: True
          let ?rm2 = "rm\<lparr>players := (players rm)[turn rm := ?p1\<lparr>isOut := True\<rparr>], board := brd\<rparr>"
          let ?sent = "broadcast ?rm2 (PlayerOut (name player))"
          let ?rm3 = "snd (checkGameOver ?rm2)"
          have pc: "play_card rm cid c =
             (if fst (checkGameOver ?rm2) then Inr (?rm3, ?sent @ sendGameState ?rm3)
              else advanceAndSend ?rm3 ?sent)"
            using run Some fd brd(1) h
            by (simp add: play_card_def Let_def split: prod.splits)
          have k: "board ?rm3 = brd" "players ?rm3 \<noteq> []"
            using checkGameOver_keeps[of ?rm2] ne by simp_all
          from advanceAndSend_board[OF k(2), of ?sent] obtain rm' where
            "advanceAndSend ?rm3 ?sent = Inr (rm', ?sent @ sendGameState rm')" "board rm' = brd"
            using k(1) by auto
          then show ?thesis using pc k(1) brd(2) by (cases "fst (checkGameOver ?rm2)") auto
        qed
      qed
    qed
  qed
qed

lemma pass_board:
  "\<exists>rm' sent. pass rm cid = Inr (rm', sent) \<and> board rm' = board rm"
proof (cases "started rm \<and> \<not> gameOver rm \<and> (\<exists>p. at_index (players rm) (turn rm) = Some p
    \<and> pid p = cid \<and> getValidMoves (hand p) (board rm) = [])")
  case True
  then obtain p where p: "at_index (players rm) (turn rm) = Some p" "pid p = cid"
    "getValidMoves (hand p) (board rm) = []" by blast
  hence ne: "players rm \<noteq> []" by (auto simp: at_index_def split: if_splits)
  let ?rm1 = "rm\<lparr>players := (players rm)[turn rm := p\<lparr>passed := True\<rparr>]\<rparr>"
  have "players ?rm1 \<noteq> []" using ne by simp
  from advanceAndSend_board[OF this, of "[]"] obtain rm' where
    "advanceAndSend ?rm1 [] = Inr (rm', [] @ sendGameState rm')" "board rm' = board rm"
    by auto
  moreover have "pass rm cid = advanceAndSend ?rm1 []" using True p by (simp add: pass_def)
  ultimately show ?thesis by auto
next
  case False
  then show ?thesis by (auto simp: pass_def split: option.splits)
qed

lemma join_room_board: "board (fst (join_room rm w rid nm)) = board rm"
  by (simp add: join_room_def Let_def)

lemma close_board: "close rm cid = (Some rm', sent) \<Longrightarrow> board rm' = board rm"
  by (auto simp: close_def Let_def split: if_splits)

lemma applyEvent_board:
  "(\<exists>sent. applyEvent rm e = Inr (None, sent))
   \<or> (\<exists>rm' sent. applyEvent rm e = Inr (Some rm', sent)
         \<and> (\<forall>s. run_le (board rm s) (board rm' s)))"
proof (cases e)
  case (JoinRoom w rid nm)
  then show ?thesis
    using join_room_board[of rm w rid nm]
    by (auto simp: applyEvent_def run_le_refl split: prod.splits)
next
  case (PlayCard cid c)
  then show ?thesis using play_card_board[of rm cid c] by (auto simp: applyEvent_def)
next
  case (Pass cid)
  then show ?thesis using pass_board[of rm cid] by (auto simp: applyEvent_def run_le_refl)
next
  case (Close cid)
  show ?thesis
  proof (cases "close rm cid")
    case (Pair r sent)
    then show ?thesis
      using Close close_board[of rm cid _ sent]
      by (cases r) (auto simp: applyEvent_def run_le_refl)
  qed
qed

text \<open>
  Claim C8. Every list of \<^verbatim>\<open>play_card\<close> and \<^verbatim>\<open>pass\<close> messages, from any senders and
  with any cards, with joins and departures among them, is handled without a throw;
  unless the last player has left and the room is deleted, the run of every suit after
  it is above or equal to the run before: a run that was started is still started and
  its high has not decreased. None of these handlers empties a run; \<^verbatim>\<open>initBoard()\<close> is
  assigned to the board of a room by the deal only, in \<^verbatim>\<open>start_game\<close> and \<^verbatim>\<open>restart\<close>.
\<close>

theorem high_never_decreases:
  "applyEvents rm es = Inr None
   \<or> (\<exists>rm'. applyEvents rm es = Inr (Some rm') \<and> run_le (board rm s) (board rm' s))"
proof (induction es arbitrary: rm)
  case Nil
  show ?case by (simp add: run_le_refl)
next
  case (Cons e es)
  from applyEvent_board[of rm e] show ?case
  proof (elim disjE exE conjE)
    fix sent assume "applyEvent rm e = Inr (None, sent)"
    thus ?thesis by simp
  next
    fix rm1 sent
    assume e: "applyEvent rm e = Inr (Some rm1, sent)"
      and m: "\<forall>s. run_le (board rm s) (board rm1 s)"
    from Cons.IH[of rm1] show ?thesis
    proof (elim disjE exE conjE)
      assume "applyEvents rm1 es = Inr None"
      with e show ?thesis by simp
    next
      fix rm' assume r: "applyEvents rm1 es = Inr (Some rm')"
        "run_le (board rm1 s) (board rm' s)"
      from e r(1) have "applyEvents rm (e # es) = Inr (Some rm')" by simp
      moreover from m r(2) have "run_le (board rm s) (board rm' s)"
        by (blast intro: run_le_trans)
      ultimately show ?thesis by blast
    qed
  qed
qed

lemma ex_events:
  "applyEvents ex_room
     [PlayCard ''a'' \<lparr>card_suit = Diamonds, card_value = 10\<rparr>,
      JoinRoom carol_ws ''K3F9QZ'' ''Carol'',
      PlayCard ''b'' \<lparr>card_suit = Diamonds, card_value = 11\<rparr>,
      Pass ''a'',
      PlayCard ''a'' \<lparr>card_suit = Clubs, card_value = 7\<rparr>,
      Close ''a'']
   = Inr (Some (ex_room\<lparr>players := [bob\<lparr>hand := tl (hand bob), passed := False\<rparr>],
                          board := ex_board(Diamonds := Some \<lparr>low = 7, high = 11\<rparr>,
                                            Clubs := Some \<lparr>low = 7, high = 7\<rparr>)\<rparr>))"
  by (simp add: applyEvent_def play_card_def pass_def join_room_def close_def Let_def
      ex_room_def alice_def bob_def ex_board_def initBoard_def at_index_def isValidMove_def
      sameCard_def updateBoard_def advanceAndSend_def nextTurn_def
      nextTurn_loop.simps [of "[x, y]" for x y] fun_upd_twist)

theorem high_never_decreases_witness:
  "\<exists>rm'. applyEvents ex_room
            [PlayCard ''a'' \<lparr>card_suit = Diamonds, card_value = 10\<rparr>,
             JoinRoom carol_ws ''K3F9QZ'' ''Carol'',
             PlayCard ''b'' \<lparr>card_suit = Diamonds, card_value = 11\<rparr>,
             Pass ''a'',
             PlayCard ''a'' \<lparr>card_suit = Clubs, card_value = 7\<rparr>,
             Close ''a''] = Inr (Some rm')
     \<and> run_le (board ex_room Diamonds) (board rm' Diamonds)
     \<and> map_option high (board ex_room Diamonds) = Some 9
     \<and> map_option high (board rm' Diamonds) = Some 11"
proof -
  let ?es = "[PlayCard ''a'' \<lparr>card_suit = Diamonds, card_value = 10\<rparr>,
             JoinRoom carol_ws ''K3F9QZ'' ''Carol'',
             PlayCard ''b'' \<lparr>card_suit = Diamonds, card_value = 11\<rparr>,
             Pass ''a'',
             PlayCard ''a'' \<lparr>card_suit = Clubs, card_value = 7\<rparr>,
             Close ''a'']"
  let ?rm = "ex_room\<lparr>players := [bob\<lparr>hand := tl (hand bob), passed := False\<rparr>],
                     board := ex_board(Diamonds := Some \<lparr>low = 7, high = 11\<rparr>,
                                       Clubs := Some \<lparr>low = 7, high = 7\<rparr>)\<rparr>"
  have e: "applyEvents ex_room ?es = Inr (Some ?rm)" by (rule ex_events)
  with high_never_decreases [of ex_room ?es Diamonds]
  have "run_le (board ex_room Diamonds) (board ?rm Diamonds)" by simp
  moreover have "map_option high (board ex_room Diamonds) = Some 9"
    by (simp add: ex_room_def ex_board_def)
  moreover have "map_option high (board ?rm Diamonds) = Some 11" by simp
  ultimately show ?thesis using e by (intro exI[of _ ?rm] conjI)
qed

text \<open>
  Claim C5. In a room in progress, when the player whose turn it is sends a card that is
  not among the legal moves of its hand, \<^verbatim>\<open>play_card\<close> sends the "invalid move" error to
  that player only and leaves the room, so the hand and the board, as it was.
\<close>

theorem illegal_move_rejected:
  assumes "started rm" "\<not> gameOver rm"
    and "at_index (players rm) (turn rm) = Some p" "pid p = cid"
    and "c \<notin> set (getValidMoves (hand p) (board rm))"
  shows "play_card rm cid c = Inr (rm, [(cid, Error InvalidMove)])"
  using assms by (simp add: play_card_def find_sameCard)

theorem illegal_move_rejected_witness:
  "started ex_room \<and> \<not> gameOver ex_room
   \<and> at_index (players ex_room) (turn ex_room) = Some alice \<and> pid alice = ''a''
   \<and> \<lparr>card_suit = Clubs, card_value = 9\<rparr> \<notin> set (getValidMoves (hand alice) (board ex_room))
   \<and> board ex_room Clubs = None
   \<and> play_card ex_room ''a'' \<lparr>card_suit = Clubs, card_value = 9\<rparr>
       = Inr (ex_room, [(''a'', Error InvalidMove)])"
proof -
  have n: "\<lparr>card_suit = Clubs, card_value = 9\<rparr> \<notin> set (getValidMoves (hand alice) (board ex_room))"
    by (simp add: ex_room_fields alice_moves)
  have "board ex_room Clubs = None" by (simp add: ex_room_fields ex_board_def initBoard_def)
  with n show ?thesis
    using illegal_move_rejected [OF ex_room_fields(1,2,4) ex_ids(1) n]
    by (simp add: ex_room_fields ex_ids)
qed

text \<open>
  Claim C3, amended. In a room in progress, a \<^verbatim>\<open>play_card\<close> or a \<^verbatim>\<open>pass\<close> message
  whose sender is not the player of the current turn is dropped: the room is left as it
  was and nothing is sent, to the sender or to anyone else.
\<close>

theorem not_your_turn_ignored:
  assumes "started rm" "\<not> gameOver rm"
    and "map_option pid (at_index (players rm) (turn rm)) \<noteq> Some cid"
  shows "play_card rm cid c = Inr (rm, []) \<and> pass rm cid = Inr (rm, [])"
  using assms by (auto simp: play_card_def pass_def split: option.splits)

theorem not_your_turn_ignored_witness:
  "started ex_room \<and> \<not> gameOver ex_room
   \<and> map_option pid (at_index (players ex_room) (turn ex_room)) \<noteq> Some ''b''
   \<and> play_card ex_room ''b'' \<lparr>card_suit = Clubs, card_value = 8\<rparr> = Inr (ex_room, [])
   \<and> pass ex_room ''b'' = Inr (ex_room, [])"
proof -
  have n: "map_option pid (at_index (players ex_room) (turn ex_room)) \<noteq> Some ''b''"
    by (simp add: ex_room_fields ex_ids)
  show ?thesis
    using not_your_turn_ignored [OF ex_room_fields(1,2) n] n by (simp add: ex_room_fields)
qed

text \<open>
  The claim as stated, that the sender is told of the error, fails: Bob, who is seated
  but whose turn it is not, plays and passes, and nothing is sent.
\<close>

theorem not_your_turn_no_error:
  "started ex_room \<and> \<not> gameOver ex_room
   \<and> map_option pid (at_index (players ex_room) (turn ex_room)) = Some ''a''
   \<and> ''b'' \<in> set (map pid (players ex_room))
   \<and> play_card ex_room ''b'' \<lparr>card_suit = Clubs, card_value = 8\<rparr> = Inr (ex_room, [])
   \<and> pass ex_room ''b'' = Inr (ex_room, [])"
  by (simp add: play_card_def pass_def ex_room_fields ex_ids)

text \<open>
  Claim C4, amended. \<^verbatim>\<open>create_room\<close> stores a new lobby room, with the creator as its
  only player, under the generated identifier, whatever was registered there; the
  rooms of all other identifiers are left as they were, and the socket records the
  identifier.
\<close>

theorem create_room_stores:
  "fst (create_room rooms w rid nm) = rooms(rid \<mapsto> newRoom w nm)
   \<and> (\<forall>rid'. rid' \<noteq> rid \<longrightarrow> fst (create_room rooms w rid nm) rid' = rooms rid')
   \<and> fst (snd (create_room rooms w rid nm)) = w\<lparr>roomId := Some rid\<rparr>"
  by (simp add: create_room_def Let_def)

theorem create_room_stores_witness:
  "''K3F9QZ'' \<noteq> ''ZZTOP1''
   \<and> fst (create_room [''K3F9QZ'' \<mapsto> ex_room] carol_ws ''ZZTOP1'' ''Carol'') ''K3F9QZ''
       = Some ex_room
   \<and> fst (create_room [''K3F9QZ'' \<mapsto> ex_room] carol_ws ''ZZTOP1'' ''Carol'') ''ZZTOP1''
       = Some ex_lobby"
  using create_room_stores [of "[''K3F9QZ'' \<mapsto> ex_room]" carol_ws "''ZZTOP1''" "''Carol''"]
  by (simp add: ex_lobby_def)

text \<open>
  The claim as stated fails: when the generated identifier is that of a live room, the
  room in progress registered there is replaced by the new lobby.
\<close>

theorem create_room_overwrites:
  "[''K3F9QZ'' \<mapsto> ex_room] ''K3F9QZ'' = Some ex_room
   \<and> fst (create_room [''K3F9QZ'' \<mapsto> ex_room] carol_ws ''K3F9QZ'' ''Carol'') ''K3F9QZ''
       = Some ex_lobby
   \<and> ex_lobby \<noteq> ex_room"
proof -
  have "started ex_room" "\<not> started ex_lobby"
    by (simp_all add: ex_room_def ex_lobby_def newRoom_def)
  hence "ex_lobby \<noteq> ex_room" by auto
  thus ?thesis by (simp add: create_room_def Let_def ex_lobby_def)
qed

text \<open>
  Claim C2, amended. In a room with a player, started or not, \<^verbatim>\<open>start_game\<close> is
  refused in two cases only, each with an error to the sender and the room left as it
  was: the sender is not the host (seat 0), or fewer than two players are seated. From
  the host of a room with two players or more it deals: a new deck, the hands dealt from
  it, all flags cleared, the board emptied, \<^verbatim>\<open>started\<close> set, and \<^verbatim>\<open>game_started\<close> and
  the game state sent.
\<close>

theorem start_game_not_gated:
  assumes "players rm = p0 # ps"
  shows "(pid p0 \<noteq> cid \<longrightarrow> start_game rnd rm cid = Inr (rm, [(cid, Error OnlyHostCanStart)]))
   \<and> (pid p0 = cid \<and> ps = [] \<longrightarrow>
         start_game rnd rm cid = Inr (rm, [(cid, Error NeedTwoPlayers)]))
   \<and> (pid p0 = cid \<and> ps \<noteq> [] \<longrightarrow>
        (\<exists>rm'. start_game rnd rm cid = Inr (rm', broadcast rm' GameStarted @ sendGameState rm')
           \<and> deck rm' = Some (createDeck rnd)
           \<and> map hand (players rm') = dealCards (createDeck rnd) (length (players rm))
           \<and> map pid (players rm') = map pid (players rm)
           \<and> (\<forall>p\<in>set (players rm'). \<not> isOut p \<and> \<not> passed p)
           \<and> board rm' = initBoard \<and> started rm' \<and> \<not> gameOver rm' \<and> loser rm' = None
           \<and> turn rm' = firstPlayer (players rm')))"
proof (intro conjI impI)
  assume "pid p0 = cid \<and> ps \<noteq> []"
  hence "start_game rnd rm cid = Inr (dealGame rnd rm)"
    using assms by (cases ps) (simp_all add: start_game_def)
  thus "\<exists>rm'. start_game rnd rm cid = Inr (rm', broadcast rm' GameStarted @ sendGameState rm')
           \<and> deck rm' = Some (createDeck rnd)
           \<and> map hand (players rm') = dealCards (createDeck rnd) (length (players rm))
           \<and> map pid (players rm') = map pid (players rm)
           \<and> (\<forall>p\<in>set (players rm'). \<not> isOut p \<and> \<not> passed p)
           \<and> board rm' = initBoard \<and> started rm' \<and> \<not> gameOver rm' \<and> loser rm' = None
           \<and> turn rm' = firstPlayer (players rm')"
    using dealGame_result[of rnd rm] by auto
qed (use assms in \<open>simp_all add: start_game_def\<close>)

theorem start_game_not_gated_witness:
  "started ex_room \<and> players ex_room = alice # [bob] \<and> pid alice = ''a''
   \<and> (\<exists>rm'. start_game (\<lambda>i. 0) ex_room ''a''
               = Inr (rm', broadcast rm' GameStarted @ sendGameState rm')
          \<and> deck rm' = Some (createDeck (\<lambda>i. 0)) \<and> board rm' = initBoard \<and> started rm'
          \<and> map hand (players rm') = dealCards (createDeck (\<lambda>i. 0)) 2)"
proof -
  have p: "players ex_room = alice # [bob]" by (simp add: ex_room_def)
  from start_game_not_gated [OF p, of "''a''" "\<lambda>i. 0"] ex_ids(1)
  obtain rm' where "start_game (\<lambda>i. 0) ex_room ''a''
               = Inr (rm', broadcast rm' GameStarted @ sendGameState rm')"
    "deck rm' = Some (createDeck (\<lambda>i. 0))" "board rm' = initBoard" "started rm'"
    "map hand (players rm') = dealCards (createDeck (\<lambda>i. 0)) (length (players ex_room))"
    by auto
  moreover have "length (players ex_room) = 2" by (simp add: p)
  ultimately show ?thesis
    using p ex_ids(1) ex_room_fields(1) by (intro conjI exI[of _ rm']) (simp_all only:)
qed

text \<open>
  The claim as stated fails: in the room in progress the host sends \<^verbatim>\<open>start_game\<close>;
  no error is sent, the spades run is emptied and both players hold sixteen new cards.
\<close>

theorem start_game_deals_again:
  "started ex_room \<and> \<not> gameOver ex_room
   \<and> board ex_room Spades = Some \<lparr>low = 7, high = 14\<rparr>
   \<and> map (length \<circ> hand) (players ex_room) = [7, 6]
   \<and> start_game (\<lambda>i. 0) ex_room ''a'' = Inr (dealGame (\<lambda>i. 0) ex_room)
   \<and> board (fst (dealGame (\<lambda>i. 0) ex_room)) Spades = None
   \<and> map (length \<circ> hand) (players (fst (dealGame (\<lambda>i. 0) ex_room))) = [16, 16]
   \<and> list_all (\<lambda>m. \<not> is_Error (snd m)) (snd (dealGame (\<lambda>i. 0) ex_room))"
proof -
  have p: "players ex_room = [alice, bob]" by (simp add: ex_room_def)
  have l: "length (players ex_room) = 2" by (simp add: p)
  have s: "start_game (\<lambda>i. 0) ex_room ''a'' = Inr (dealGame (\<lambda>i. 0) ex_room)"
    by (simp add: start_game_def p ex_ids)
  from dealGame_result [of "\<lambda>i. 0" ex_room] obtain rm' where
    d: "dealGame (\<lambda>i. 0) ex_room = (rm', broadcast rm' GameStarted @ sendGameState rm')"
       "map hand (players rm') = dealCards (createDeck (\<lambda>i. 0)) (length (players ex_room))"
       "board rm' = initBoard"
    by blast
  have "map (length \<circ> hand) (players rm') = map length (map hand (players rm'))" by simp
  also have "\<dots> = map length (dealCards (createDeck (\<lambda>i. 0)) 2)"
    by (simp only: d(2) l)
  also have "\<dots> = [16, 16]" by (rule deal_zero_2)
  finally have h: "map (length \<circ> hand) (players rm') = [16, 16]" .
  have "map (length \<circ> hand) (players ex_room) = [7, 6]" by (simp add: p alice_def bob_def)
  moreover have "board ex_room Spades = Some \<lparr>low = 7, high = 14\<rparr>"
    by (simp add: ex_room_fields ex_board_def)
  ultimately show ?thesis
    using s h d(1,3) sent_no_error [of rm'] ex_room_fields(1,2) by (simp add: initBoard_def)
qed

text \<open>
  Claim C10. In a room with a player, \<^verbatim>\<open>restart\<close> from the host (seat 0) deals, with no
  condition on \<^verbatim>\<open>started\<close> or on the number of players: a new deck, the hands dealt
  from it, all flags cleared, the board emptied, \<^verbatim>\<open>started\<close> set, and
  \<^verbatim>\<open>game_started\<close> and the game state sent.
\<close>

theorem restart_from_any_state:
  assumes "players rm = p0 # ps" "pid p0 = cid"
  shows "\<exists>rm'. restart rnd rm cid = Inr (rm', broadcast rm' GameStarted @ sendGameState rm')
           \<and> deck rm' = Some (createDeck rnd)
           \<and> map hand (players rm') = dealCards (createDeck rnd) (length (players rm))
           \<and> map pid (players rm') = map pid (players rm)
           \<and> (\<forall>p\<in>set (players rm'). \<not> isOut p \<and> \<not> passed p)
           \<and> board rm' = initBoard \<and> started rm' \<and> \<not> gameOver rm' \<and> loser rm' = None
           \<and> turn rm' = firstPlayer (players rm')"
proof -
  have "restart rnd rm cid = Inr (dealGame rnd rm)"
    using assms by (simp add: restart_def)
  thus ?thesis using dealGame_result[of rnd rm] by auto
qed

theorem restart_from_any_state_witness:
  "\<not> started ex_lobby \<and> length (players ex_lobby) = 1 \<and> pid (hd (players ex_lobby)) = ''c''
   \<and> (\<exists>rm'. restart (\<lambda>i. 0) ex_lobby ''c''
               = Inr (rm', broadcast rm' GameStarted @ sendGameState rm')
          \<and> deck rm' = Some (createDeck (\<lambda>i. 0)) \<and> board rm' = initBoard \<and> started rm'
          \<and> map hand (players rm') = [createDeck (\<lambda>i. 0)])"
proof -
  let ?p = "\<lparr>pid = ''c'', name = ''Carol'', readyState = 1, hand = [], passed = False,
             isOut = False\<rparr>"
  have p: "players ex_lobby = ?p # []"
    by (simp add: ex_lobby_def newRoom_def newPlayer_def carol_ws_def)
  have i: "pid ?p = ''c''" by simp
  from restart_from_any_state [OF p i, of "\<lambda>i. 0"]
  obtain rm' where "restart (\<lambda>i. 0) ex_lobby ''c''
               = Inr (rm', broadcast rm' GameStarted @ sendGameState rm')"
    "deck rm' = Some (createDeck (\<lambda>i. 0))" "board rm' = initBoard" "started rm'"
    "map hand (players rm') = dealCards (createDeck (\<lambda>i. 0)) (length (players ex_lobby))"
    by auto
  moreover have "\<not> started ex_lobby" by (simp add: ex_lobby_def newRoom_def)
  moreover have "length (players ex_lobby) = 1" by (simp add: p)
  ultimately show ?thesis using p by (intro conjI exI[of _ rm']) (simp_all add: dealCards_one)
qed

end
